theory Spec2Isabelle
  imports Main "HOL-Library.Word" "HOL-Library.List_Lexorder" "HOL-Library.Char_ord"
begin

section \<open>School calendar generator: a model of make_calendar.py\<close>

text \<open>
  The script reads a term (name, first day, last day) and a list of weekly events, prints
  a weekly view and writes an iCalendar document. Each function of the script is embedded
  as a HOL function of the same name. A Python exception is a value \<open>Inl e\<close> of a sum
  type, a normal return is \<open>Inr v\<close>. Strings are \<open>string\<close> (lists of 8-bit
  characters; text outside ASCII is its UTF-8 bytes).
\<close>

subsection \<open>Exceptions\<close>

text \<open>
  The script raises \<open>ValueError\<close> itself and lets the exceptions of the standard
  library escape. \<open>ValueError m\<close> is a \<open>ValueError\<close> with the message \<open>m\<close>, and
  \<open>KeyError k\<close> is the \<open>KeyError\<close> for the key \<open>k\<close>. \<open>IntValueError s\<close> is the
  \<open>ValueError\<close> that \<open>int(s)\<close> raises for a string it does not read as a number; its
  message is made from \<open>repr(s)\<close> or from the number of digits and is not spelled out.
  \<open>OverflowError\<close> is raised where a Python integer does not fit the C \<open>int\<close> a
  library function takes; it is not a \<open>ValueError\<close>.
\<close>

datatype error = ValueError string | KeyError string | OverflowError | IntValueError string


subsection \<open>Decimal rendering\<close>

text \<open>\<open>str(n)\<close> for a non-negative integer, and the \<open>%02d\<close> and \<open>%04d\<close> formats.\<close>

definition digit_char :: "nat \<Rightarrow> char" where
  "digit_char n = char_of (48 + n)"

function show_nat :: "nat \<Rightarrow> string" where
  "show_nat n = (if n < 10 then [digit_char n] else show_nat (n div 10) @ [digit_char (n mod 10)])"
  by pat_completeness auto
termination
  by (relation "measure id") auto

declare show_nat.simps [simp del]

definition pad2 :: "nat \<Rightarrow> string" where
  "pad2 n = (if n < 10 then ''0'' @ show_nat n else show_nat n)"

definition pad4 :: "nat \<Rightarrow> string" where
  "pad4 n = replicate (4 - length (show_nat n)) (CHR ''0'') @ show_nat n"

subsection \<open>Dates and times of day\<close>

text \<open>
  A \<open>datetime.date\<close> is represented by its proleptic Gregorian ordinal, the number
  \<open>toordinal\<close> returns: day 1 is 0001-01-01, a Monday. Date objects exist for the
  ordinals 1 to 3652059 (9999-12-31) only; \<open>date.fromordinal\<close> raises \<open>ValueError\<close>
  outside that range. Comparison of dates is comparison of ordinals. The conversions
  between ordinals and (year, month, day) follow \<open>_ymd2ord\<close> and \<open>_ord2ymd\<close> of the
  standard library's datetime module.
\<close>

type_synonym date = int

definition MAXORDINAL :: int where
  "MAXORDINAL = 3652059"

definition valid_date :: "date \<Rightarrow> bool" where
  "valid_date d = (1 \<le> d \<and> d \<le> MAXORDINAL)"

definition toordinal :: "date \<Rightarrow> int" where
  "toordinal d = d"

definition fromordinal :: "int \<Rightarrow> error + date" where
  "fromordinal n =
     (if n < 1 then Inl (ValueError ''ordinal must be >= 1'')
      else if n > MAXORDINAL then Inl (ValueError ''year 10000 is out of range'')
      else Inr n)"

definition weekday :: "date \<Rightarrow> int" where
  "weekday d = (toordinal d + 6) mod 7"

definition is_leap :: "int \<Rightarrow> bool" where
  "is_leap y = (y mod 4 = 0 \<and> (y mod 100 \<noteq> 0 \<or> y mod 400 = 0))"

definition DAYS_IN_MONTH :: "int list" where
  "DAYS_IN_MONTH = [0, 31, 28, 31, 30, 31, 30, 31, 31, 30, 31, 30, 31]"

definition DAYS_BEFORE_MONTH :: "int list" where
  "DAYS_BEFORE_MONTH = [0, 0, 31, 59, 90, 120, 151, 181, 212, 243, 273, 304, 334]"

definition days_before_year :: "int \<Rightarrow> int" where
  "days_before_year year = (let y = year - 1 in y * 365 + y div 4 - y div 100 + y div 400)"

definition days_before_month :: "int \<Rightarrow> int \<Rightarrow> int" where
  "days_before_month year month =
     DAYS_BEFORE_MONTH ! nat month + (if month > 2 \<and> is_leap year then 1 else 0)"

definition days_in_month :: "int \<Rightarrow> int \<Rightarrow> int" where
  "days_in_month year month =
     (if month = 2 \<and> is_leap year then 29 else DAYS_IN_MONTH ! nat month)"

definition ymd2ord :: "int \<Rightarrow> int \<Rightarrow> int \<Rightarrow> int" where
  "ymd2ord year month day = days_before_year year + days_before_month year month + day"

text \<open>The constructor \<open>date(year, month, day)\<close>, with its range checks.\<close>

definition mk_date :: "int \<Rightarrow> int \<Rightarrow> int \<Rightarrow> error + date" where
  "mk_date year month day =
     (if \<not> (1 \<le> year \<and> year \<le> 9999) then Inl (ValueError ''year is out of range'')
      else if \<not> (1 \<le> month \<and> month \<le> 12) then Inl (ValueError ''month must be in 1..12'')
      else if \<not> (1 \<le> day \<and> day \<le> days_in_month year month)
        then Inl (ValueError ''day is out of range for month'')
      else Inr (ymd2ord year month day))"

definition ord2ymd :: "int \<Rightarrow> int \<times> int \<times> int" where
  "ord2ymd n0 =
     (let n = n0 - 1;
          n400 = n div 146097; n = n mod 146097;
          year = n400 * 400 + 1;
          n100 = n div 36524; n = n mod 36524;
          n4 = n div 1461; n = n mod 1461;
          n1 = n div 365; n = n mod 365;
          year = year + n100 * 100 + n4 * 4 + n1
      in if n1 = 4 \<or> n100 = 4 then (year - 1, 12, 31)
         else
           let leapyear = (n1 = 3 \<and> (n4 \<noteq> 24 \<or> n100 = 3));
               month = (n + 50) div 32;
               preceding = DAYS_BEFORE_MONTH ! nat month + (if month > 2 \<and> leapyear then 1 else 0)
           in if preceding > n
              then let month = month - 1;
                       preceding = preceding
                         - (DAYS_IN_MONTH ! nat month + (if month = 2 \<and> leapyear then 1 else 0))
                   in (year, month, n - preceding + 1)
              else (year, month, n - preceding + 1))"

text \<open>
  A \<open>datetime.time\<close> with hour, minute and second. The constructor
  \<open>time(hour, minute)\<close> first takes both arguments as C integers of 32 bits, the hour
  before the minute, and raises \<open>OverflowError\<close> for a number that does not fit. Then it
  checks the range of the hour and then the range of the minute.
\<close>

datatype time = Time (hour: int) (minute: int) (second: int)

definition c_int :: "int \<Rightarrow> error + int" where
  "c_int n = (if - (2 ^ 31) \<le> n \<and> n < 2 ^ 31 then Inr n else Inl OverflowError)"

definition mk_time :: "int \<Rightarrow> int \<Rightarrow> error + time" where
  "mk_time h0 m0 =
     (case c_int h0 of
        Inl e \<Rightarrow> Inl e
      | Inr h \<Rightarrow>
     (case c_int m0 of
        Inl e \<Rightarrow> Inl e
      | Inr m \<Rightarrow>
          if \<not> (0 \<le> h \<and> h \<le> 23) then Inl (ValueError ''hour must be in 0..23'')
          else if \<not> (0 \<le> m \<and> m \<le> 59) then Inl (ValueError ''minute must be in 0..59'')
          else Inr (Time h m 0)))"

text \<open>
  \<open>datetime.combine(d, t).strftime("%Y%m%dT%H%M%S")\<close>. The year is printed in decimal
  (four digits for every year from 1000 on); \<open>str(d)\<close> is the ISO form, zero-padded.
\<close>

definition strftime_basic :: "date \<Rightarrow> time \<Rightarrow> string" where
  "strftime_basic d t =
     (case ord2ymd d of (y, m, dd) \<Rightarrow>
        show_nat (nat y) @ pad2 (nat m) @ pad2 (nat dd) @ ''T''
        @ pad2 (nat (hour t)) @ pad2 (nat (minute t)) @ pad2 (nat (second t)))"

definition str_date :: "date \<Rightarrow> string" where
  "str_date d =
     (case ord2ymd d of (y, m, dd) \<Rightarrow> pad4 (nat y) @ ''-'' @ pad2 (nat m) @ ''-'' @ pad2 (nat dd))"

subsection \<open>The first occurrence of an event in the term\<close>

definition DAY_MAP :: "string \<rightharpoonup> int" where
  "DAY_MAP = map_of
     [(''MO'', 0), (''TU'', 1), (''WE'', 2), (''TH'', 3), (''FR'', 4), (''SA'', 5), (''SU'', 6)]"

text \<open>
  The set comprehension \<open>{DAY_MAP[d] for d in days}\<close>: the codes are looked up in the
  order of the list, and the first code that is not a key raises \<open>KeyError\<close>.
\<close>

fun wanted_of :: "string list \<Rightarrow> error + int set" where
  "wanted_of [] = Inr {}"
| "wanted_of (d # ds) =
     (case DAY_MAP d of
        None \<Rightarrow> Inl (KeyError d)
      | Some n \<Rightarrow> (case wanted_of ds of Inl e \<Rightarrow> Inl e | Inr W \<Rightarrow> Inr (insert n W)))"

text \<open>
  The \<open>while\<close> loop of \<open>first_matching_date\<close>, from the current day \<open>d\<close>. The next
  day is made by \<open>d.fromordinal(d.toordinal() + 1)\<close> before the loop condition is
  tested again, so the step can raise.
\<close>

function scan_days :: "int set \<Rightarrow> date \<Rightarrow> date \<Rightarrow> error + date option" where
  "scan_days wanted d term_end =
     (if d \<le> term_end then
        (if weekday d \<in> wanted then Inr (Some d)
         else (case fromordinal (toordinal d + 1) of
                 Inl e \<Rightarrow> Inl e
               | Inr d' \<Rightarrow> scan_days wanted d' term_end))
      else Inr None)"
  by pat_completeness auto
termination
  by (relation "measure (\<lambda>(wanted, d, term_end). nat (term_end + 1 - d))")
     (auto simp: fromordinal_def toordinal_def split: if_splits)

declare scan_days.simps [simp del]

definition first_matching_date :: "date \<Rightarrow> date \<Rightarrow> string list \<Rightarrow> error + date option" where
  "first_matching_date term_start term_end days =
     (case wanted_of days of
        Inl e \<Rightarrow> Inl e
      | Inr wanted \<Rightarrow> scan_days wanted term_start term_end)"

subsection \<open>Parsing a time of day\<close>

text \<open>
  \<open>str.split(":")\<close>: the pieces between the colons, one more than there are colons.
\<close>

fun split_on :: "char \<Rightarrow> string \<Rightarrow> string list" where
  "split_on c [] = [[]]"
| "split_on c (x # xs) =
     (if x = c then [] # split_on c xs
      else (case split_on c xs of [] \<Rightarrow> [[x]] | p # ps \<Rightarrow> (x # p) # ps))"

text \<open>
  \<open>int(s)\<close>, as CPython reads a base 10 literal. A string with a character outside
  ASCII is first made ASCII: every Unicode white space becomes a space, every Unicode
  decimal digit becomes the ASCII digit of its value, and the text is cut with a question
  mark at the first other character outside ASCII. Which characters are white space and
  digits is decided by the Unicode database of the interpreter, so this step is a
  parameter \<open>ta\<close> of the model; an ASCII string is read as it is.

  In the ASCII text, white space (tab, line feed, vertical tab, form feed, carriage
  return, space) is dropped at both ends; one sign may come first; then decimal digits,
  where single underscores may stand between two digits. Leading zeros are allowed. A
  literal of more than 4300 digits is refused (the default limit of the interpreter).
  Every refusal is a \<open>ValueError\<close>.
\<close>

type_synonym to_ascii = "string \<Rightarrow> string"

definition is_ascii :: "char \<Rightarrow> bool" where
  "is_ascii c = ((of_char c :: nat) < 128)"

definition as_ascii :: "to_ascii \<Rightarrow> string \<Rightarrow> string" where
  "as_ascii ta s = (if list_all is_ascii s then s else ta s)"

definition is_space :: "char \<Rightarrow> bool" where
  "is_space c = (c \<in> set [CHR 0x09, CHR 0x0A, CHR 0x0B, CHR 0x0C, CHR 0x0D, CHR 0x20])"

definition is_digit :: "char \<Rightarrow> bool" where
  "is_digit c = (48 \<le> (of_char c :: nat) \<and> (of_char c :: nat) \<le> 57)"

definition digit_val :: "char \<Rightarrow> nat" where
  "digit_val c = of_char c - 48"

definition strip :: "string \<Rightarrow> string" where
  "strip s = rev (dropWhile is_space (rev (dropWhile is_space s)))"

fun digits_value :: "bool \<Rightarrow> nat \<Rightarrow> string \<Rightarrow> nat option" where
  "digits_value prev acc [] = (if prev then Some acc else None)"
| "digits_value prev acc (c # cs) =
     (if is_digit c then digits_value True (10 * acc + digit_val c) cs
      else if c = CHR ''_'' \<and> prev then digits_value False acc cs
      else None)"

definition int_max_str_digits :: nat where
  "int_max_str_digits = 4300"

definition py_int :: "to_ascii \<Rightarrow> string \<Rightarrow> error + int" where
  "py_int ta s =
     (let t = strip (as_ascii ta s);
          r = (case t of
                 [] \<Rightarrow> None
               | c # cs \<Rightarrow>
                   if c = CHR ''-'' then map_option (\<lambda>n. - int n) (digits_value False 0 cs)
                   else if c = CHR ''+'' then map_option int (digits_value False 0 cs)
                   else map_option int (digits_value False 0 t))
      in case r of
           None \<Rightarrow> Inl (IntValueError s)
         | Some n \<Rightarrow>
             if int_max_str_digits < length (filter is_digit t) then Inl (IntValueError s)
             else Inr n)"

text \<open>
  \<open>hh, mm = value.split(":")\<close> raises unless there are exactly two pieces; then
  \<open>int(hh)\<close>, \<open>int(mm)\<close> and the constructor \<open>time(hh, mm)\<close> may raise, in this order.
\<close>

definition parse_hhmm :: "to_ascii \<Rightarrow> string \<Rightarrow> error + time" where
  "parse_hhmm ta v =
     (case split_on (CHR '':'') v of
        [hh, mm] \<Rightarrow>
          (case py_int ta hh of
             Inl e \<Rightarrow> Inl e
           | Inr h \<Rightarrow> (case py_int ta mm of Inl e \<Rightarrow> Inl e | Inr m \<Rightarrow> mk_time h m))
      | [_] \<Rightarrow> Inl (ValueError ''not enough values to unpack (expected 2, got 1)'')
      | _ \<Rightarrow> Inl (ValueError ''too many values to unpack (expected 2)''))"











subsection \<open>Escaping iCalendar text\<close>

text \<open>
  \<open>str.replace(old, new)\<close>: the occurrences of \<open>old\<close> are found from the left and do
  not overlap. With an empty \<open>old\<close>, \<open>new\<close> is put before every character and at the
  end.
\<close>

function replace_str :: "string \<Rightarrow> string \<Rightarrow> string \<Rightarrow> string" where
  "replace_str old new [] = (if old = [] then new else [])"
| "replace_str old new (c # cs) =
     (if old = [] then new @ concat (map (\<lambda>x. x # new) (c # cs))
      else if take (length old) (c # cs) = old
        then new @ replace_str old new (drop (length old) (c # cs))
      else c # replace_str old new cs)"
  by pat_completeness auto
termination
  by (relation "measure (\<lambda>(old, new, s). length s)") auto

definition BS :: char where "BS = CHR 0x5C"
definition CR :: char where "CR = CHR 0x0D"
definition LF :: char where "LF = CHR 0x0A"

definition ics_escape :: "string \<Rightarrow> string" where
  "ics_escape s =
     replace_str '';'' [BS, CHR '';'']
       (replace_str '','' [BS, CHR '','']
         (replace_str [LF] [BS, CHR ''n'']
           (replace_str [CR] [LF]
             (replace_str [CR, LF] [LF]
               (replace_str [BS] [BS, BS] s)))))"

text \<open>
  The rules of the specification, character by character: the newline forms CRLF and CR
  become LF, and each character is then escaped on its own.
\<close>

fun normalize_newlines :: "string \<Rightarrow> string" where
  "normalize_newlines [] = []"
| "normalize_newlines [c] = (if c = CR then [LF] else [c])"
| "normalize_newlines (c # d # r) =
     (if c = CR \<and> d = LF then LF # normalize_newlines r
      else if c = CR then LF # normalize_newlines (d # r)
      else c # normalize_newlines (d # r))"

definition esc_char :: "char \<Rightarrow> string" where
  "esc_char c =
     (if c = BS then [BS, BS]
      else if c = LF then [BS, CHR ''n'']
      else if c = CHR '','' then [BS, CHR '','']
      else if c = CHR '';'' then [BS, CHR '';'']
      else [c])"

text \<open>
  The inverse of the escaping rules, read from the left: a backslash followed by a
  backslash, an \<open>n\<close>, a comma or a semicolon is one character; every other character
  stands for itself. The script has no such function; it is the un-escaping the
  specification speaks of.
\<close>

fun ics_unescape :: "string \<Rightarrow> string" where
  "ics_unescape [] = []"
| "ics_unescape [c] = [c]"
| "ics_unescape (c # d # r) =
     (if c = BS \<and> d = BS then BS # ics_unescape r
      else if c = BS \<and> d = CHR ''n'' then LF # ics_unescape r
      else if c = BS \<and> d = CHR '','' then CHR '','' # ics_unescape r
      else if c = BS \<and> d = CHR '';'' then CHR '';'' # ics_unescape r
      else c # ics_unescape (d # r))"

text \<open>\<open>sep.join(xs)\<close>.\<close>

fun join :: "string \<Rightarrow> string list \<Rightarrow> string" where
  "join sep [] = []"
| "join sep [x] = x"
| "join sep (x # y # r) = x @ sep @ join sep (y # r)"

subsection \<open>Events\<close>

text \<open>
  An event of the input document is a JSON object. \<open>raw_event\<close> is the object as it is
  loaded: any key may be absent. \<open>event\<close> is an object that has the four required keys,
  which is what the validation loop of \<open>main\<close> establishes before the weekly view and
  the calendar are made. The values have the types of the specification's data model:
  strings, and a list of strings for the days.
\<close>

record raw_event =
  r_title :: "string option"
  r_days :: "string list option"
  r_start :: "string option"
  r_end :: "string option"
  r_location :: "string option"
  r_notes :: "string option"

record event =
  ev_title :: string
  ev_days :: "string list"
  ev_start :: string
  ev_end :: string
  ev_location :: "string option"
  ev_notes :: "string option"

subsection \<open>The validation loop of main\<close>

fun check_days :: "nat \<Rightarrow> string list \<Rightarrow> error + unit" where
  "check_days i [] = Inr ()"
| "check_days i (d # ds) =
     (if DAY_MAP d = None
      then Inl (ValueError (''Event #'' @ show_nat i @ '' has invalid day '' @ [CHR 0x27] @ d
                            @ [CHR 0x27] @ ''. Use MO,TU,WE,TH,FR,SA,SU.''))
      else check_days i ds)"

definition validate_event :: "to_ascii \<Rightarrow> nat \<Rightarrow> raw_event \<Rightarrow> error + event" where
  "validate_event ta i e =
     (case (r_title e, r_days e, r_start e, r_end e) of
        (Some t, Some ds, Some s, Some en) \<Rightarrow>
          (case check_days i ds of
             Inl err \<Rightarrow> Inl err
           | Inr _ \<Rightarrow>
               (case parse_hhmm ta s of
                  Inl err \<Rightarrow> Inl err
                | Inr _ \<Rightarrow>
                    (case parse_hhmm ta en of
                       Inl err \<Rightarrow> Inl err
                     | Inr _ \<Rightarrow>
                         Inr \<lparr>ev_title = t, ev_days = ds, ev_start = s, ev_end = en,
                              ev_location = r_location e, ev_notes = r_notes e\<rparr>)))
      | _ \<Rightarrow> Inl (ValueError (''Event #'' @ show_nat i
                              @ '' is missing required keys (title/days/start/end).'')))"

fun validate_from :: "to_ascii \<Rightarrow> nat \<Rightarrow> raw_event list \<Rightarrow> error + event list" where
  "validate_from ta i [] = Inr []"
| "validate_from ta i (e # es) =
     (case validate_event ta i e of
        Inl err \<Rightarrow> Inl err
      | Inr v \<Rightarrow> (case validate_from ta (Suc i) es of Inl err \<Rightarrow> Inl err | Inr vs \<Rightarrow> Inr (v # vs)))"

definition validate :: "to_ascii \<Rightarrow> raw_event list \<Rightarrow> error + event list" where
  "validate ta events = validate_from ta 1 events"

subsection \<open>The weekly view\<close>

text \<open>
  Python lists are mutable objects, and \<open>print_week_view\<close> sorts a list in place. The
  state of the program is therefore explicit: the list objects that exist, by address,
  the next free address, and what has been printed (one entry for each call of
  \<open>print\<close>, in order).
\<close>

record pstate =
  lists :: "nat \<Rightarrow> event list"
  next_addr :: nat
  stdout :: "string list"

definition new_list :: "event list \<Rightarrow> pstate \<Rightarrow> nat \<times> pstate" where
  "new_list xs st =
     (next_addr st, st\<lparr>lists := (lists st)(next_addr st := xs), next_addr := Suc (next_addr st)\<rparr>)"

text \<open>
  \<open>items.sort(key=...)\<close>: a stable sort of the list object at address \<open>a\<close>, in place.
  The keys are the \<open>start\<close> strings, compared as Python compares strings: character
  by character.
\<close>

definition sort_in_place :: "nat \<Rightarrow> pstate \<Rightarrow> pstate" where
  "sort_in_place a st = st\<lparr>lists := (lists st)(a := sort_key ev_start (lists st a))\<rparr>"

definition print :: "string \<Rightarrow> pstate \<Rightarrow> pstate" where
  "print s st = st\<lparr>stdout := stdout st @ [s]\<rparr>"

definition order :: "string list" where
  "order = [''MO'', ''TU'', ''WE'', ''TH'', ''FR'', ''SA'', ''SU'']"

definition en_dash :: string where
  "en_dash = [CHR 0xE2, CHR 0x80, CHR 0x93]"

definition item_line :: "event \<Rightarrow> string" where
  "item_line e = ''  '' @ ev_start e @ en_dash @ ev_end e @ ''  '' @ ev_title e"

fun print_items :: "event list \<Rightarrow> pstate \<Rightarrow> pstate" where
  "print_items [] st = st"
| "print_items (e # es) st = print_items es (print (item_line e) st)"

text \<open>The body of the loop over the weekdays, for the list object at address \<open>events\<close>.\<close>

definition print_day :: "nat \<Rightarrow> string \<Rightarrow> pstate \<Rightarrow> pstate" where
  "print_day events d st =
     (case new_list (filter (\<lambda>e. d \<in> set (ev_days e)) (lists st events)) st of
        (items, st1) \<Rightarrow>
          let st2 = sort_in_place items st1;
              st3 = print ([LF] @ d @ '':'') st2
          in if lists st3 items = [] then print ''  (none)'' st3
             else print_items (lists st3 items) st3)"

fun print_days :: "nat \<Rightarrow> string list \<Rightarrow> pstate \<Rightarrow> pstate" where
  "print_days events [] st = st"
| "print_days events (d # ds) st = print_days events ds (print_day events d st)"

definition print_week_view :: "nat \<Rightarrow> pstate \<Rightarrow> pstate" where
  "print_week_view events st =
     print_days events order
       (print (replicate 40 (CHR ''-'')) (print ([LF] @ ''WEEKLY VIEW'') st))"

subsection \<open>The calendar document\<close>

text \<open>
  The UID of an event is made from \<open>hash\<close> of a tuple of strings. Python's string hash
  is keyed by a secret that each interpreter process draws when it starts (unless
  \<open>PYTHONHASHSEED\<close> fixes it), so the hash function of the running process is a
  parameter \<open>h\<close> of the model. Its values are machine integers of 64 bits, read as
  signed.
\<close>

type_synonym uid_key = "string \<times> string list \<times> string \<times> string \<times> string \<times> string"

type_synonym py_hash = "uid_key \<Rightarrow> 64 word"

definition uid_key_of :: "date \<Rightarrow> date \<Rightarrow> event \<Rightarrow> uid_key" where
  "uid_key_of term_start term_end e =
     (ev_title e, ev_days e, ev_start e, ev_end e, str_date term_start, str_date term_end)"

definition uid :: "py_hash \<Rightarrow> date \<Rightarrow> date \<Rightarrow> event \<Rightarrow> string" where
  "uid h term_start term_end e =
     show_nat (nat \<bar>sint (h (uid_key_of term_start term_end e))\<bar>) @ ''@school-calendar''"

definition get_or_empty :: "string option \<Rightarrow> string" where
  "get_or_empty v = (case v of None \<Rightarrow> [] | Some s \<Rightarrow> s)"

text \<open>
  The body of the loop over the events: the lines the event adds to the document, none
  when the event has no first occurrence.
\<close>

definition event_lines :: "to_ascii \<Rightarrow> py_hash \<Rightarrow> date \<Rightarrow> date \<Rightarrow> string \<Rightarrow> event \<Rightarrow> error + string list" where
  "event_lines ta h term_start term_end until e =
     (case parse_hhmm ta (ev_start e) of
        Inl err \<Rightarrow> Inl err
      | Inr start_t \<Rightarrow>
     (case parse_hhmm ta (ev_end e) of
        Inl err \<Rightarrow> Inl err
      | Inr end_t \<Rightarrow>
     (case first_matching_date term_start term_end (ev_days e) of
        Inl err \<Rightarrow> Inl err
      | Inr None \<Rightarrow> Inr []
      | Inr (Some first) \<Rightarrow>
          Inr [''BEGIN:VEVENT'',
               ''UID:'' @ uid h term_start term_end e,
               ''SUMMARY:'' @ ics_escape (ev_title e),
               ''DTSTART:'' @ strftime_basic first start_t,
               ''DTEND:'' @ strftime_basic first end_t,
               ''RRULE:FREQ=WEEKLY;BYDAY='' @ join '','' (ev_days e) @ '';UNTIL='' @ until,
               ''LOCATION:'' @ ics_escape (get_or_empty (ev_location e)),
               ''DESCRIPTION:'' @ ics_escape (get_or_empty (ev_notes e)),
               ''END:VEVENT''])))"

fun extend_lines ::
  "to_ascii \<Rightarrow> py_hash \<Rightarrow> date \<Rightarrow> date \<Rightarrow> string \<Rightarrow> string list \<Rightarrow> event list \<Rightarrow> error + string list" where
  "extend_lines ta h term_start term_end until lines [] = Inr lines"
| "extend_lines ta h term_start term_end until lines (e # es) =
     (case event_lines ta h term_start term_end until e of
        Inl err \<Rightarrow> Inl err
      | Inr block \<Rightarrow> extend_lines ta h term_start term_end until (lines @ block) es)"

definition header :: "string \<Rightarrow> string list" where
  "header term =
     [''BEGIN:VCALENDAR'',
      ''VERSION:2.0'',
      ''PRODID:-//School Calendar Generator//EN'',
      ''CALSCALE:GREGORIAN'',
      ''X-WR-CALNAME:'' @ ics_escape term]"

text \<open>The list \<open>lines\<close> of \<open>build_ics\<close> when the function returns.\<close>

definition ics_lines :: "to_ascii \<Rightarrow> py_hash \<Rightarrow> string \<Rightarrow> date \<Rightarrow> date \<Rightarrow> event list \<Rightarrow> error + string list" where
  "ics_lines ta h term term_start term_end events =
     (let until = strftime_basic term_end (Time 23 59 59) in
      case extend_lines ta h term_start term_end until (header term) events of
        Inl err \<Rightarrow> Inl err
      | Inr lines \<Rightarrow> Inr (lines @ [''END:VCALENDAR'']))"

definition CRLF :: string where
  "CRLF = [CR, LF]"

definition build_ics :: "to_ascii \<Rightarrow> py_hash \<Rightarrow> string \<Rightarrow> date \<Rightarrow> date \<Rightarrow> event list \<Rightarrow> error + string" where
  "build_ics ta h term term_start term_end events =
     (case ics_lines ta h term term_start term_end events of
        Inl err \<Rightarrow> Inl err
      | Inr lines \<Rightarrow> Inr (join CRLF lines @ CRLF))"

subsection \<open>The main program\<close>

text \<open>
  \<open>main\<close> from the loaded configuration on: the validation loop, the weekly view and the
  calendar text, which the script then writes to a file. The event list is one list
  object, at the address \<open>new_list\<close> gives it.
\<close>

definition main ::
  "to_ascii \<Rightarrow> py_hash \<Rightarrow> string \<Rightarrow> date \<Rightarrow> date \<Rightarrow> raw_event list \<Rightarrow> pstate \<Rightarrow> error + (string \<times> pstate)" where
  "main ta h term term_start term_end raw st =
     (case validate ta raw of
        Inl err \<Rightarrow> Inl err
      | Inr evs \<Rightarrow>
          (case new_list evs st of
             (events, st1) \<Rightarrow>
               let st2 = print_week_view events st1 in
               (case build_ics ta h term term_start term_end (lists st2 events) of
                  Inl err \<Rightarrow> Inl err
                | Inr ics_text \<Rightarrow> Inr (ics_text, st2))))"

subsection \<open>Properties used in the statements below\<close>

text \<open>
  \<open>checked\<close> is what the validation loop establishes for an event: every day code is a
  key of \<open>DAY_MAP\<close>, and the start and the end parse. \<open>day_lines\<close> is what the weekly
  view prints for one weekday: the header, and then the selected events in the order of
  the sort, or the line for no events.
\<close>

definition checked :: "to_ascii \<Rightarrow> event \<Rightarrow> bool" where
  "checked ta e =
     (list_all (\<lambda>d. DAY_MAP d \<noteq> None) (ev_days e)
      \<and> (\<exists>t. parse_hhmm ta (ev_start e) = Inr t) \<and> (\<exists>t. parse_hhmm ta (ev_end e) = Inr t))"

definition day_lines :: "event list \<Rightarrow> string \<Rightarrow> string list" where
  "day_lines evs d =
     ([LF] @ d @ '':'')
     # (let items = sort_key ev_start (filter (\<lambda>e. d \<in> set (ev_days e)) evs)
        in if items = [] then [''  (none)''] else map item_line items)"

text \<open>The state when the program starts: no list object exists, nothing is printed.\<close>

definition init_state :: pstate where
  "init_state = \<lparr>lists = (\<lambda>_. []), next_addr = 0, stdout = []\<rparr>"

section \<open>Evaluation on concrete inputs\<close>

lemma show_nat_values:
  "show_nat 0 = ''0''" "show_nat 1 = ''1''" "show_nat 2 = ''2''" "show_nat 9 = ''9''"
  "show_nat 10 = ''10''" "show_nat 11 = ''11''" "show_nat 12 = ''12''" "show_nat 13 = ''13''"
  "show_nat 15 = ''15''" "show_nat 23 = ''23''" "show_nat 59 = ''59''"
  "show_nat 2024 = ''2024''"
  by code_simp+

lemma mk_date_values:
  "mk_date 2024 9 2 = Inr 739131" "mk_date 2024 12 13 = Inr 739233"
  "mk_date 9999 12 31 = Inr MAXORDINAL"
  by (simp_all add: mk_date_def ymd2ord_def days_before_year_def days_before_month_def
      days_in_month_def DAYS_IN_MONTH_def DAYS_BEFORE_MONTH_def is_leap_def Let_def
      MAXORDINAL_def)

lemma ord2ymd_values:
  "ord2ymd 739131 = (2024, 9, 2)" "ord2ymd 739233 = (2024, 12, 13)"
  by (simp_all add: ord2ymd_def Let_def DAYS_IN_MONTH_def DAYS_BEFORE_MONTH_def)

lemma strftime_values:
  "strftime_basic 739131 (Time 10 0 0) = ''20240902T100000''"
  "strftime_basic 739131 (Time 11 15 0) = ''20240902T111500''"
  "strftime_basic 739233 (Time 23 59 59) = ''20241213T235959''"
  by (simp_all add: strftime_basic_def ord2ymd_values pad2_def show_nat_values)

lemma parse_hhmm_values:
  "parse_hhmm ta ''10:00'' = Inr (Time 10 0 0)" "parse_hhmm ta ''11:15'' = Inr (Time 11 15 0)"
  "parse_hhmm ta ''11:00'' = Inr (Time 11 0 0)" "parse_hhmm ta ''9:00'' = Inr (Time 9 0 0)"
  by (simp_all add: parse_hhmm_def py_int_def as_ascii_def is_ascii_def strip_def is_space_def
      is_digit_def digit_val_def int_max_str_digits_def mk_time_def c_int_def)

lemma first_matching_date_example:
  "first_matching_date 739131 739233 [''MO'', ''WE''] = Inr (Some 739131)"
  by (simp add: first_matching_date_def DAY_MAP_def scan_days.simps weekday_def toordinal_def)

lemma ics_escape_plain: "ics_escape ''Algorithms'' = ''Algorithms''" "ics_escape [] = []"
  by (simp_all add: ics_escape_def BS_def CR_def LF_def)

text \<open>
  Claim C7. With the term from 2024-09-02, a Monday, to 2024-12-13 and the one event
  Algorithms on MO and WE from 10:00 to 11:15, \<open>build_ics\<close> makes one VEVENT: its first
  occurrence is 2024-09-02, with DTSTART:20240902T100000 and DTEND:20240902T111500, and
  its RRULE line is FREQ=WEEKLY with BYDAY=MO,WE, the codes in the order given, and
  UNTIL=20241213T235959. This holds for every term name, every hash function and every
  Unicode database.
\<close>

theorem build_ics_algorithms_example:
  "mk_date 2024 9 2 = Inr 739131 \<and> mk_date 2024 12 13 = Inr 739233 \<and> weekday 739131 = 0
   \<and> first_matching_date 739131 739233 [''MO'', ''WE''] = Inr (Some 739131)
   \<and> ics_lines ta h term 739131 739233
        [\<lparr>ev_title = ''Algorithms'', ev_days = [''MO'', ''WE''], ev_start = ''10:00'',
          ev_end = ''11:15'', ev_location = None, ev_notes = None\<rparr>]
      = Inr (header term @
          [''BEGIN:VEVENT'',
           ''UID:'' @ uid h 739131 739233
              \<lparr>ev_title = ''Algorithms'', ev_days = [''MO'', ''WE''], ev_start = ''10:00'',
                ev_end = ''11:15'', ev_location = None, ev_notes = None\<rparr>,
           ''SUMMARY:Algorithms'',
           ''DTSTART:20240902T100000'',
           ''DTEND:20240902T111500'',
           ''RRULE:FREQ=WEEKLY;BYDAY=MO,WE;UNTIL=20241213T235959'',
           ''LOCATION:'',
           ''DESCRIPTION:'',
           ''END:VEVENT'',
           ''END:VCALENDAR''])
   \<and> (\<exists>lines. ics_lines ta h term 739131 739233
        [\<lparr>ev_title = ''Algorithms'', ev_days = [''MO'', ''WE''], ev_start = ''10:00'',
          ev_end = ''11:15'', ev_location = None, ev_notes = None\<rparr>] = Inr lines
      \<and> build_ics ta h term 739131 739233
        [\<lparr>ev_title = ''Algorithms'', ev_days = [''MO'', ''WE''], ev_start = ''10:00'',
          ev_end = ''11:15'', ev_location = None, ev_notes = None\<rparr>]
        = Inr (join CRLF lines @ CRLF))"
proof -
  have lines: "ics_lines ta h term 739131 739233
        [\<lparr>ev_title = ''Algorithms'', ev_days = [''MO'', ''WE''], ev_start = ''10:00'',
          ev_end = ''11:15'', ev_location = None, ev_notes = None\<rparr>]
      = Inr (header term @
          [''BEGIN:VEVENT'',
           ''UID:'' @ uid h 739131 739233
              \<lparr>ev_title = ''Algorithms'', ev_days = [''MO'', ''WE''], ev_start = ''10:00'',
                ev_end = ''11:15'', ev_location = None, ev_notes = None\<rparr>,
           ''SUMMARY:Algorithms'',
           ''DTSTART:20240902T100000'',
           ''DTEND:20240902T111500'',
           ''RRULE:FREQ=WEEKLY;BYDAY=MO,WE;UNTIL=20241213T235959'',
           ''LOCATION:'',
           ''DESCRIPTION:'',
           ''END:VEVENT'',
           ''END:VCALENDAR''])"
    by (simp add: ics_lines_def event_lines_def parse_hhmm_values first_matching_date_example
        strftime_values ics_escape_plain get_or_empty_def)
  have monday: "weekday 739131 = 0"
    by (simp add: weekday_def toordinal_def)
  have doc: "\<exists>lines. ics_lines ta h term 739131 739233
        [\<lparr>ev_title = ''Algorithms'', ev_days = [''MO'', ''WE''], ev_start = ''10:00'',
          ev_end = ''11:15'', ev_location = None, ev_notes = None\<rparr>] = Inr lines
      \<and> build_ics ta h term 739131 739233
        [\<lparr>ev_title = ''Algorithms'', ev_days = [''MO'', ''WE''], ev_start = ''10:00'',
          ev_end = ''11:15'', ev_location = None, ev_notes = None\<rparr>]
        = Inr (join CRLF lines @ CRLF)"
    unfolding build_ics_def lines by simp
  show ?thesis
    using lines monday doc mk_date_values(1,2) first_matching_date_example by blast
qed

section \<open>The first occurrence\<close>

text \<open>
  What the loop of \<open>first_matching_date\<close> returns: a date it returns is the earliest date
  of the range with a wanted weekday, and it returns \<open>None\<close> only when the range has no
  such date. When the term ends before the last date that exists, it always returns.
  When the term ends on the last date and no date of the range matches, the step past
  the end of the range raises.
\<close>

lemma scan_days_Some:
  "scan_days W d te = Inr (Some x) \<Longrightarrow>
     d \<le> x \<and> x \<le> te \<and> weekday x \<in> W \<and> (\<forall>y. d \<le> y \<and> y < x \<longrightarrow> weekday y \<notin> W)"
proof (induction W d te rule: scan_days.induct)
  case (1 W d te)
  show ?case
  proof (cases "d \<le> te \<and> weekday d \<notin> W")
    case False
    with "1.prems" show ?thesis
      by (auto simp: scan_days.simps [of W d te] split: if_splits)
  next
    case True
    with "1.prems" obtain d' where d': "fromordinal (toordinal d + 1) = Inr d'"
      and rec: "scan_days W d' te = Inr (Some x)"
      by (auto simp: scan_days.simps [of W d te] split: sum.splits)
    from d' have eq: "d' = d + 1"
      by (auto simp: fromordinal_def toordinal_def split: if_splits)
    from "1.IH" [OF _ _ d' rec] True
    have ih: "d' \<le> x \<and> x \<le> te \<and> weekday x \<in> W \<and> (\<forall>y. d' \<le> y \<and> y < x \<longrightarrow> weekday y \<notin> W)"
      by simp
    show ?thesis
    proof (intro conjI allI impI)
      fix y assume y: "d \<le> y \<and> y < x"
      show "weekday y \<notin> W"
      proof (cases "y = d")
        case True' : True
        then show ?thesis using True by simp
      next
        case False
        then show ?thesis using y ih eq by auto
      qed
    qed (use ih eq in auto)
  qed
qed

lemma scan_days_None:
  "scan_days W d te = Inr None \<Longrightarrow> d \<le> y \<Longrightarrow> y \<le> te \<Longrightarrow> weekday y \<notin> W"
proof (induction W d te rule: scan_days.induct)
  case (1 W d te)
  from "1.prems" have dle: "d \<le> te" by simp
  from "1.prems"(1) dle have nw: "weekday d \<notin> W"
    by (auto simp: scan_days.simps [of W d te] split: if_splits)
  from "1.prems"(1) dle nw obtain d' where d': "fromordinal (toordinal d + 1) = Inr d'"
      and rec: "scan_days W d' te = Inr None"
    by (auto simp: scan_days.simps [of W d te] split: sum.splits)
  from d' have eq: "d' = d + 1"
    by (auto simp: fromordinal_def toordinal_def split: if_splits)
  show ?case
  proof (cases "y = d")
    case True
    then show ?thesis using nw by simp
  next
    case False
    with "1.prems" eq have "d' \<le> y" by simp
    from "1.IH" [OF dle nw d' rec this "1.prems"(3)] show ?thesis .
  qed
qed

lemma scan_days_returns:
  "0 \<le> d \<Longrightarrow> te < MAXORDINAL \<Longrightarrow> \<exists>r. scan_days W d te = Inr r"
proof (induction W d te rule: scan_days.induct)
  case (1 W d te)
  show ?case
  proof (cases "d \<le> te \<and> weekday d \<notin> W")
    case False
    then show ?thesis
      by (auto simp: scan_days.simps [of W d te])
  next
    case True
    with "1.prems" have d': "fromordinal (toordinal d + 1) = Inr (d + 1)"
      by (simp add: fromordinal_def toordinal_def)
    from "1.IH" [OF _ _ d'] True "1.prems"
    obtain r where "scan_days W (d + 1) te = Inr r" by auto
    with True d' show ?thesis
      by (simp add: scan_days.simps [of W d te])
  qed
qed

lemma scan_days_overflow:
  "0 \<le> d \<Longrightarrow> d \<le> MAXORDINAL \<Longrightarrow> (\<forall>y. d \<le> y \<and> y \<le> MAXORDINAL \<longrightarrow> weekday y \<notin> W) \<Longrightarrow>
     scan_days W d MAXORDINAL = Inl (ValueError ''year 10000 is out of range'')"
proof (induction W d "MAXORDINAL" rule: scan_days.induct)
  case (1 W d)
  from "1.prems" have nw: "weekday d \<notin> W" by simp
  show ?case
  proof (cases "d = MAXORDINAL")
    case True
    have step: "fromordinal (toordinal MAXORDINAL + 1) = Inl (ValueError ''year 10000 is out of range'')"
      by (simp add: fromordinal_def toordinal_def MAXORDINAL_def)
    from nw True have "weekday MAXORDINAL \<notin> W" by simp
    then have "scan_days W MAXORDINAL MAXORDINAL = Inl (ValueError ''year 10000 is out of range'')"
      by (simp add: scan_days.simps [of W MAXORDINAL MAXORDINAL] step)
    with True show ?thesis by simp
  next
    case False
    with "1.prems" have d': "fromordinal (toordinal d + 1) = Inr (d + 1)"
      by (simp add: fromordinal_def toordinal_def)
    from "1.hyps" [OF "1.prems"(2) nw d'] "1.prems" False
    have "scan_days W (d + 1) MAXORDINAL = Inl (ValueError ''year 10000 is out of range'')"
      by simp
    with "1.prems" nw d' show ?thesis
      by (simp add: scan_days.simps [of W d MAXORDINAL])
  qed
qed

lemma show_nat_one: "show_nat (Suc 0) = ''1''"
  using show_nat_values(2) by simp

lemma wanted_of_values: "wanted_of [''MO''] = Inr {0}" "wanted_of [] = Inr {}"
  by (simp_all add: DAY_MAP_def)

lemma max_date_values: "valid_date MAXORDINAL" "weekday MAXORDINAL = 4"
  by (simp_all add: valid_date_def weekday_def toordinal_def MAXORDINAL_def)

lemma first_matching_date_max_monday:
  "first_matching_date MAXORDINAL MAXORDINAL [''MO'']
     = Inl (ValueError ''year 10000 is out of range'')"
proof -
  have "\<forall>y. MAXORDINAL \<le> y \<and> y \<le> MAXORDINAL \<longrightarrow> weekday y \<notin> {0}"
    using max_date_values(2) by auto
  then have "scan_days {0} MAXORDINAL MAXORDINAL = Inl (ValueError ''year 10000 is out of range'')"
    by (intro scan_days_overflow) (simp_all add: MAXORDINAL_def)
  then show ?thesis
    by (simp add: first_matching_date_def DAY_MAP_def)
qed

text \<open>
  Claim C1 fails on the last date that exists. The term 9999-12-31 to 9999-12-31 is a
  range of one valid date, a Friday; with the day list MO no date of the range matches,
  so the claim has \<open>first_matching_date\<close> return \<open>None\<close>. The function raises
  \<open>ValueError\<close> instead: it makes the next day before it tests the end of the range.
\<close>

theorem first_matching_date_raises_at_max_date:
  "mk_date 9999 12 31 = Inr MAXORDINAL \<and> valid_date MAXORDINAL \<and> weekday MAXORDINAL = 4
   \<and> wanted_of [''MO''] = Inr {0}
   \<and> first_matching_date MAXORDINAL MAXORDINAL [''MO'']
       = Inl (ValueError ''year 10000 is out of range'')"
  using mk_date_values(3) max_date_values wanted_of_values(1) first_matching_date_max_monday
  by simp

text \<open>
  Claim C9 fails on the same input range. With the empty day list the wanted set is
  empty and no lookup fails, but for the term 9999-12-31 to 9999-12-31
  \<open>first_matching_date\<close> does not return \<open>None\<close>: it raises \<open>ValueError\<close>.
\<close>

theorem first_matching_date_empty_days_raises_at_max_date:
  "mk_date 9999 12 31 = Inr MAXORDINAL \<and> valid_date MAXORDINAL \<and> wanted_of [] = Inr {}
   \<and> first_matching_date MAXORDINAL MAXORDINAL []
       = Inl (ValueError ''year 10000 is out of range'')"
proof -
  have "scan_days {} MAXORDINAL MAXORDINAL = Inl (ValueError ''year 10000 is out of range'')"
    by (intro scan_days_overflow) (simp_all add: MAXORDINAL_def)
  then have "first_matching_date MAXORDINAL MAXORDINAL []
       = Inl (ValueError ''year 10000 is out of range'')"
    by (simp add: first_matching_date_def)
  then show ?thesis
    using mk_date_values(3) max_date_values(1) by simp
qed

text \<open>
  Claim C8 fails on the same input range. The event A on MO from 10:00 to 11:00 passes
  the validation loop. In the term 9999-12-31 to 9999-12-31, a Friday, it has no first
  occurrence, so the claim has \<open>build_ics\<close> skip it and return a calendar without
  events. \<open>build_ics\<close> raises \<open>ValueError\<close> instead, for every term name and hash
  function.
\<close>

theorem build_ics_raises_at_max_date:
  "validate ta [\<lparr>r_title = Some ''A'', r_days = Some [''MO''], r_start = Some ''10:00'',
              r_end = Some ''11:00'', r_location = None, r_notes = None\<rparr>]
     = Inr [\<lparr>ev_title = ''A'', ev_days = [''MO''], ev_start = ''10:00'', ev_end = ''11:00'',
              ev_location = None, ev_notes = None\<rparr>]
   \<and> valid_date MAXORDINAL
   \<and> build_ics ta h term MAXORDINAL MAXORDINAL
        [\<lparr>ev_title = ''A'', ev_days = [''MO''], ev_start = ''10:00'', ev_end = ''11:00'',
           ev_location = None, ev_notes = None\<rparr>]
     = Inl (ValueError ''year 10000 is out of range'')"
  by (simp add: validate_def validate_event_def parse_hhmm_values build_ics_def ics_lines_def
      event_lines_def first_matching_date_max_monday max_date_values DAY_MAP_def)

section \<open>The validation loop and the weekly view on concrete inputs\<close>

text \<open>
  Claim C5 fails for the times. An event whose day code is not recognised is refused
  with a message that names the event's position (Event #1). An event whose start is
  25:00 is refused too, but by \<open>parse_hhmm\<close>: the error is the one the \<open>time\<close>
  constructor raises, and its message names neither the event nor its position.
\<close>

theorem validate_time_error_has_no_position:
  "validate ta [\<lparr>r_title = Some ''A'', r_days = Some [''MO''], r_start = Some ''25:00'',
              r_end = Some ''10:00'', r_location = None, r_notes = None\<rparr>]
     = Inl (ValueError ''hour must be in 0..23'')
   \<and> validate ta [\<lparr>r_title = Some ''A'', r_days = Some [''XX''], r_start = Some ''25:00'',
              r_end = Some ''10:00'', r_location = None, r_notes = None\<rparr>]
     = Inl (ValueError (''Event #1 has invalid day '' @ [CHR 0x27] @ ''XX'' @ [CHR 0x27]
                        @ ''. Use MO,TU,WE,TH,FR,SA,SU.''))"
  by (simp add: validate_def validate_event_def parse_hhmm_def py_int_def as_ascii_def
      is_ascii_def strip_def is_space_def is_digit_def digit_val_def int_max_str_digits_def
      mk_time_def c_int_def DAY_MAP_def show_nat_one)

lemma sort_key_nine_ten:
  "sort_key ev_start
     [\<lparr>ev_title = ''A'', ev_days = [''MO''], ev_start = ''9:00'', ev_end = ''10:00'',
        ev_location = None, ev_notes = None\<rparr>,
      \<lparr>ev_title = ''B'', ev_days = [''MO''], ev_start = ''10:00'', ev_end = ''11:00'',
        ev_location = None, ev_notes = None\<rparr>]
   = [\<lparr>ev_title = ''B'', ev_days = [''MO''], ev_start = ''10:00'', ev_end = ''11:00'',
        ev_location = None, ev_notes = None\<rparr>,
      \<lparr>ev_title = ''A'', ev_days = [''MO''], ev_start = ''9:00'', ev_end = ''10:00'',
        ev_location = None, ev_notes = None\<rparr>]"
  by (simp add: less_eq_char_def less_char_def)

text \<open>
  Claim C4 fails for start times that are not zero-padded, which the validation loop
  accepts. The events A at 9:00 and B at 10:00, both on MO, are printed under MO with B
  first: the sort key is the start string, and the string 10:00 is smaller than the
  string 9:00, while the time 9:00 is the earlier one.
\<close>

theorem print_week_view_orders_by_start_string:
  "parse_hhmm ta ''9:00'' = Inr (Time 9 0 0) \<and> parse_hhmm ta ''10:00'' = Inr (Time 10 0 0)
   \<and> stdout (print_week_view
        (fst (new_list
           [\<lparr>ev_title = ''A'', ev_days = [''MO''], ev_start = ''9:00'', ev_end = ''10:00'',
              ev_location = None, ev_notes = None\<rparr>,
            \<lparr>ev_title = ''B'', ev_days = [''MO''], ev_start = ''10:00'', ev_end = ''11:00'',
              ev_location = None, ev_notes = None\<rparr>] init_state))
        (snd (new_list
           [\<lparr>ev_title = ''A'', ev_days = [''MO''], ev_start = ''9:00'', ev_end = ''10:00'',
              ev_location = None, ev_notes = None\<rparr>,
            \<lparr>ev_title = ''B'', ev_days = [''MO''], ev_start = ''10:00'', ev_end = ''11:00'',
              ev_location = None, ev_notes = None\<rparr>] init_state)))
     = [[LF] @ ''WEEKLY VIEW'', replicate 40 (CHR ''-''),
        [LF] @ ''MO:'', ''  10:00'' @ en_dash @ ''11:00  B'', ''  9:00'' @ en_dash @ ''10:00  A'',
        [LF] @ ''TU:'', ''  (none)'', [LF] @ ''WE:'', ''  (none)'', [LF] @ ''TH:'', ''  (none)'',
        [LF] @ ''FR:'', ''  (none)'', [LF] @ ''SA:'', ''  (none)'', [LF] @ ''SU:'', ''  (none)'']"
  by (simp add: parse_hhmm_values print_week_view_def order_def print_day_def new_list_def
      init_state_def sort_in_place_def print_def item_line_def Let_def sort_key_nine_ten)

section \<open>The weekly view changes no list that exists\<close>

text \<open>
  \<open>print_week_view\<close> makes a new list object for each weekday and sorts that object;
  printing changes the output only. Every list object that exists when the function is
  called is therefore the same afterwards.
\<close>

lemma print_frame [simp]:
  "lists (print s st) = lists st" "next_addr (print s st) = next_addr st"
  by (simp_all add: print_def)

lemma print_items_frame [simp]:
  "lists (print_items es st) = lists st" "next_addr (print_items es st) = next_addr st"
  by (induction es arbitrary: st) simp_all

lemma print_day_next_addr: "next_addr (print_day events d st) = Suc (next_addr st)"
  by (simp add: print_day_def new_list_def sort_in_place_def Let_def)

lemma print_day_frame:
  "b < next_addr st \<Longrightarrow> lists (print_day events d st) b = lists st b"
  by (simp add: print_day_def new_list_def sort_in_place_def Let_def)

lemma print_days_frame:
  "b < next_addr st \<Longrightarrow> lists (print_days events ds st) b = lists st b"
proof (induction ds arbitrary: st)
  case Nil
  show ?case by simp
next
  case (Cons d ds)
  from Cons.prems have "b < next_addr (print_day events d st)"
    by (simp add: print_day_next_addr)
  then have "lists (print_days events ds (print_day events d st)) b
      = lists (print_day events d st) b"
    by (rule Cons.IH)
  with Cons.prems show ?case
    by (simp add: print_day_frame)
qed

lemma print_week_view_frame:
  "b < next_addr st \<Longrightarrow> lists (print_week_view events st) b = lists st b"
  by (simp add: print_week_view_def print_days_frame)

text \<open>
  Claim C10. \<open>print_week_view\<close> does not change its input: every list object that exists
  before the call, the event list among them, has the same elements in the same order
  after it, so the calendar built from the event list after printing is the one built
  from it before. In \<open>main\<close> the calendar text is the one \<open>build_ics\<close> makes from the
  validated events as they were loaded; the weekly view adds to the output only.
\<close>

theorem print_week_view_keeps_lists:
  "(\<forall>b. b < next_addr st \<longrightarrow> lists (print_week_view events st) b = lists st b)
   \<and> (events < next_addr st \<longrightarrow>
        build_ics ta h term term_start term_end (lists (print_week_view events st) events)
          = build_ics ta h term term_start term_end (lists st events))
   \<and> main ta h term term_start term_end raw st
       = (case validate ta raw of
            Inl err \<Rightarrow> Inl err
          | Inr evs \<Rightarrow>
              (case build_ics ta h term term_start term_end evs of
                 Inl err \<Rightarrow> Inl err
               | Inr ics_text \<Rightarrow>
                   Inr (ics_text, print_week_view (next_addr st) (snd (new_list evs st)))))"
proof (intro conjI allI impI)
  fix b assume "b < next_addr st"
  then show "lists (print_week_view events st) b = lists st b"
    by (rule print_week_view_frame)
next
  assume "events < next_addr st"
  then show "build_ics ta h term term_start term_end (lists (print_week_view events st) events)
          = build_ics ta h term term_start term_end (lists st events)"
    by (simp add: print_week_view_frame)
next
  have kept: "lists (print_week_view (next_addr st) (snd (new_list evs st))) (next_addr st) = evs"
    for evs
    by (simp add: print_week_view_frame new_list_def)
  show "main ta h term term_start term_end raw st
       = (case validate ta raw of
            Inl err \<Rightarrow> Inl err
          | Inr evs \<Rightarrow>
              (case build_ics ta h term term_start term_end evs of
                 Inl err \<Rightarrow> Inl err
               | Inr ics_text \<Rightarrow>
                   Inr (ics_text, print_week_view (next_addr st) (snd (new_list evs st)))))"
    unfolding main_def
    by (cases "validate ta raw") (simp_all add: new_list_def kept [unfolded new_list_def, simplified] Let_def split: sum.splits)
qed

text \<open>
  The witness: the weekly view of the events A at 9:00 and B at 10:00 prints B first, and
  the event list still holds A and then B.
\<close>

theorem print_week_view_keeps_lists_witness:
  "lists (print_week_view 0
      (snd (new_list
         [\<lparr>ev_title = ''A'', ev_days = [''MO''], ev_start = ''9:00'', ev_end = ''10:00'',
            ev_location = None, ev_notes = None\<rparr>,
          \<lparr>ev_title = ''B'', ev_days = [''MO''], ev_start = ''10:00'', ev_end = ''11:00'',
            ev_location = None, ev_notes = None\<rparr>] init_state))) 0
   = [\<lparr>ev_title = ''A'', ev_days = [''MO''], ev_start = ''9:00'', ev_end = ''10:00'',
            ev_location = None, ev_notes = None\<rparr>,
          \<lparr>ev_title = ''B'', ev_days = [''MO''], ev_start = ''10:00'', ev_end = ''11:00'',
            ev_location = None, ev_notes = None\<rparr>]"
  using print_week_view_keeps_lists [of "snd (new_list
         [\<lparr>ev_title = ''A'', ev_days = [''MO''], ev_start = ''9:00'', ev_end = ''10:00'',
            ev_location = None, ev_notes = None\<rparr>,
          \<lparr>ev_title = ''B'', ev_days = [''MO''], ev_start = ''10:00'', ev_end = ''11:00'',
            ev_location = None, ev_notes = None\<rparr>] init_state)" 0]
  by (simp add: new_list_def init_state_def)

section \<open>The UID of an event\<close>

text \<open>
  The decimal rendering of a number can be read back, so two numbers with the same
  rendering are equal, and two UIDs are equal exactly when the absolute values of the
  two hashes are. The key that is hashed holds the title, the days, the start, the end
  and the two term bounds as \<open>str\<close> prints them; two keys are equal exactly when all
  of these are.
\<close>

lemma digit_val_digit_char: "n < 10 \<Longrightarrow> digit_val (digit_char n) = n"
  by (simp add: digit_val_def digit_char_def)

lemma decimal_of_show_nat:
  "foldl (\<lambda>a c. 10 * a + digit_val c) 0 (show_nat n) = n"
proof (induction n rule: show_nat.induct)
  case (1 n)
  show ?case
  proof (cases "n < 10")
    case True
    then show ?thesis
      by (simp add: show_nat.simps [of n] digit_val_digit_char)
  next
    case False
    with 1 have "foldl (\<lambda>a c. 10 * a + digit_val c) 0 (show_nat (n div 10)) = n div 10"
      by simp
    with False show ?thesis
      by (simp add: show_nat.simps [of n] digit_val_digit_char)
  qed
qed

lemma show_nat_inj: "show_nat m = show_nat n \<Longrightarrow> m = n"
  by (metis decimal_of_show_nat)

lemma uid_eq_iff:
  "(uid h ts te e = uid h' ts' te' e')
     = (\<bar>sint (h (uid_key_of ts te e))\<bar> = \<bar>sint (h' (uid_key_of ts' te' e'))\<bar>)"
proof -
  have "(uid h ts te e = uid h' ts' te' e')
     = (nat \<bar>sint (h (uid_key_of ts te e))\<bar> = nat \<bar>sint (h' (uid_key_of ts' te' e'))\<bar>)"
    unfolding uid_def using show_nat_inj by auto
  then show ?thesis by (simp add: eq_nat_nat_iff)
qed

lemma uid_key_of_eq_iff:
  "uid_key_of ts te e = uid_key_of ts' te' e' \<longleftrightarrow>
     ev_title e = ev_title e' \<and> ev_days e = ev_days e' \<and> ev_start e = ev_start e'
     \<and> ev_end e = ev_end e' \<and> str_date ts = str_date ts' \<and> str_date te = str_date te'"
  by (simp add: uid_key_of_def)

lemma pad_values:
  "pad4 2024 = ''2024''" "pad2 9 = ''09''" "pad2 2 = ''02''" "pad2 12 = ''12''" "pad2 13 = ''13''"
  by (simp_all add: pad4_def pad2_def show_nat_values)

lemma str_date_values:
  "str_date 739131 = ''2024-09-02''" "str_date 739233 = ''2024-12-13''"
  by (simp_all add: str_date_def ord2ymd_values pad_values)

lemma uid_key_of_algorithms:
  "uid_key_of 739131 739233
     \<lparr>ev_title = ''Algorithms'', ev_days = [''MO'', ''WE''], ev_start = ''10:00'',
       ev_end = ''11:15'', ev_location = None, ev_notes = None\<rparr>
   = (''Algorithms'', [''MO'', ''WE''], ''10:00'', ''11:15'', ''2024-09-02'', ''2024-12-13'')"
  by (simp add: uid_key_of_def str_date_values)

text \<open>
  Claim C2 fails for repeated runs. For the example of the specification, the term from
  2024-09-02 to 2024-12-13 with the event Algorithms, the key is the tuple of the six
  strings below, and the UID line of the document is the decimal of the absolute value
  of the hash of this tuple, followed by the fixed suffix. Nothing else enters the UID,
  so the UID is the same under two hash functions exactly when the two hashes of the
  tuple have the same absolute value. Python draws the secret of its string hash anew
  for every interpreter process, so two runs of the program on this input hash the
  tuple differently and write different UIDs, where the claim has them equal.
\<close>

theorem uid_follows_process_hash:
  "uid_key_of 739131 739233
     \<lparr>ev_title = ''Algorithms'', ev_days = [''MO'', ''WE''], ev_start = ''10:00'',
       ev_end = ''11:15'', ev_location = None, ev_notes = None\<rparr>
     = (''Algorithms'', [''MO'', ''WE''], ''10:00'', ''11:15'', ''2024-09-02'', ''2024-12-13'')
   \<and> uid h 739131 739233
       \<lparr>ev_title = ''Algorithms'', ev_days = [''MO'', ''WE''], ev_start = ''10:00'',
         ev_end = ''11:15'', ev_location = None, ev_notes = None\<rparr>
     = show_nat (nat \<bar>sint (h (''Algorithms'', [''MO'', ''WE''], ''10:00'', ''11:15'',
                                ''2024-09-02'', ''2024-12-13''))\<bar>) @ ''@school-calendar''
   \<and> ((uid h 739131 739233
         \<lparr>ev_title = ''Algorithms'', ev_days = [''MO'', ''WE''], ev_start = ''10:00'',
           ev_end = ''11:15'', ev_location = None, ev_notes = None\<rparr>
        = uid h' 739131 739233
         \<lparr>ev_title = ''Algorithms'', ev_days = [''MO'', ''WE''], ev_start = ''10:00'',
           ev_end = ''11:15'', ev_location = None, ev_notes = None\<rparr>)
      = (\<bar>sint (h (''Algorithms'', [''MO'', ''WE''], ''10:00'', ''11:15'',
                     ''2024-09-02'', ''2024-12-13''))\<bar>
         = \<bar>sint (h' (''Algorithms'', [''MO'', ''WE''], ''10:00'', ''11:15'',
                       ''2024-09-02'', ''2024-12-13''))\<bar>))
   \<and> (\<exists>lines. ics_lines ta h term 739131 739233
          [\<lparr>ev_title = ''Algorithms'', ev_days = [''MO'', ''WE''], ev_start = ''10:00'',
            ev_end = ''11:15'', ev_location = None, ev_notes = None\<rparr>] = Inr lines
        \<and> lines ! 6
          = ''UID:'' @ show_nat (nat \<bar>sint (h (''Algorithms'', [''MO'', ''WE''], ''10:00'',
                ''11:15'', ''2024-09-02'', ''2024-12-13''))\<bar>) @ ''@school-calendar'')"
proof (intro conjI)
  have uid_val: "uid g 739131 739233
       \<lparr>ev_title = ''Algorithms'', ev_days = [''MO'', ''WE''], ev_start = ''10:00'',
         ev_end = ''11:15'', ev_location = None, ev_notes = None\<rparr>
     = show_nat (nat \<bar>sint (g (''Algorithms'', [''MO'', ''WE''], ''10:00'', ''11:15'',
                                ''2024-09-02'', ''2024-12-13''))\<bar>) @ ''@school-calendar''"
    for g :: py_hash
    by (simp only: uid_def uid_key_of_algorithms)
  show "uid_key_of 739131 739233
     \<lparr>ev_title = ''Algorithms'', ev_days = [''MO'', ''WE''], ev_start = ''10:00'',
       ev_end = ''11:15'', ev_location = None, ev_notes = None\<rparr>
     = (''Algorithms'', [''MO'', ''WE''], ''10:00'', ''11:15'', ''2024-09-02'', ''2024-12-13'')"
    by (rule uid_key_of_algorithms)
  show "uid h 739131 739233
       \<lparr>ev_title = ''Algorithms'', ev_days = [''MO'', ''WE''], ev_start = ''10:00'',
         ev_end = ''11:15'', ev_location = None, ev_notes = None\<rparr>
     = show_nat (nat \<bar>sint (h (''Algorithms'', [''MO'', ''WE''], ''10:00'', ''11:15'',
                                ''2024-09-02'', ''2024-12-13''))\<bar>) @ ''@school-calendar''"
    by (rule uid_val)
  show "(uid h 739131 739233
         \<lparr>ev_title = ''Algorithms'', ev_days = [''MO'', ''WE''], ev_start = ''10:00'',
           ev_end = ''11:15'', ev_location = None, ev_notes = None\<rparr>
        = uid h' 739131 739233
         \<lparr>ev_title = ''Algorithms'', ev_days = [''MO'', ''WE''], ev_start = ''10:00'',
           ev_end = ''11:15'', ev_location = None, ev_notes = None\<rparr>)
      = (\<bar>sint (h (''Algorithms'', [''MO'', ''WE''], ''10:00'', ''11:15'',
                     ''2024-09-02'', ''2024-12-13''))\<bar>
         = \<bar>sint (h' (''Algorithms'', [''MO'', ''WE''], ''10:00'', ''11:15'',
                       ''2024-09-02'', ''2024-12-13''))\<bar>)"
    by (simp only: uid_eq_iff uid_key_of_algorithms)
  have "ics_lines ta h term 739131 739233
          [\<lparr>ev_title = ''Algorithms'', ev_days = [''MO'', ''WE''], ev_start = ''10:00'',
            ev_end = ''11:15'', ev_location = None, ev_notes = None\<rparr>]
      = Inr (header term @
          [''BEGIN:VEVENT'',
           ''UID:'' @ uid h 739131 739233
              \<lparr>ev_title = ''Algorithms'', ev_days = [''MO'', ''WE''], ev_start = ''10:00'',
                ev_end = ''11:15'', ev_location = None, ev_notes = None\<rparr>,
           ''SUMMARY:Algorithms'',
           ''DTSTART:20240902T100000'',
           ''DTEND:20240902T111500'',
           ''RRULE:FREQ=WEEKLY;BYDAY=MO,WE;UNTIL=20241213T235959'',
           ''LOCATION:'',
           ''DESCRIPTION:'',
           ''END:VEVENT'',
           ''END:VCALENDAR''])"
    by (simp add: ics_lines_def event_lines_def parse_hhmm_values first_matching_date_example
        strftime_values ics_escape_plain get_or_empty_def)
  then show "\<exists>lines. ics_lines ta h term 739131 739233
          [\<lparr>ev_title = ''Algorithms'', ev_days = [''MO'', ''WE''], ev_start = ''10:00'',
            ev_end = ''11:15'', ev_location = None, ev_notes = None\<rparr>] = Inr lines
        \<and> lines ! 6
          = ''UID:'' @ show_nat (nat \<bar>sint (h (''Algorithms'', [''MO'', ''WE''], ''10:00'',
                ''11:15'', ''2024-09-02'', ''2024-12-13''))\<bar>) @ ''@school-calendar''"
    by (simp add: header_def uid_val)
qed

section \<open>Escaping\<close>

text \<open>
  The six replacements of \<open>ics_escape\<close>, done one after the other on the whole string,
  come to the same as normalising the newlines and then escaping each character on its
  own: the backslashes are doubled first, so no later replacement meets a backslash that
  an earlier one has put there.
\<close>

lemma special_chars_distinct:
  "BS \<noteq> CR" "BS \<noteq> LF" "CR \<noteq> LF" "CR \<noteq> BS" "LF \<noteq> BS" "LF \<noteq> CR"
  "BS \<noteq> CHR '',''" "BS \<noteq> CHR '';''" "BS \<noteq> CHR ''n''"
  "CR \<noteq> CHR '',''" "CR \<noteq> CHR '';''" "CR \<noteq> CHR ''n''"
  "LF \<noteq> CHR '',''" "LF \<noteq> CHR '';''" "LF \<noteq> CHR ''n''"
  "CHR '','' \<noteq> BS" "CHR '';'' \<noteq> BS" "CHR ''n'' \<noteq> BS"
  "CHR '','' \<noteq> LF" "CHR '';'' \<noteq> LF" "CHR ''n'' \<noteq> LF"
  "CHR '','' \<noteq> CR" "CHR '';'' \<noteq> CR" "CHR ''n'' \<noteq> CR"
  by (simp_all add: BS_def CR_def LF_def)

lemma replace_str_char:
  "replace_str [a] new s = concat (map (\<lambda>c. if c = a then new else [c]) s)"
  by (induction s) simp_all

lemma concat_map_concat_map:
  "concat (map g (concat (map f s))) = concat (map (\<lambda>c. concat (map g (f c))) s)"
  by (induction s) simp_all

lemma replace_crlf_simps:
  "replace_str [CR, LF] [LF] [] = []"
  "replace_str [CR, LF] [LF] [c] = [c]"
  "replace_str [CR, LF] [LF] (c # d # r) =
     (if c = CR \<and> d = LF then LF # replace_str [CR, LF] [LF] r
      else c # replace_str [CR, LF] [LF] (d # r))"
  by auto

lemma replace_crlf_then_cr:
  "replace_str [CR] [LF] (replace_str [CR, LF] [LF] s) = normalize_newlines s"
proof (induction s rule: normalize_newlines.induct)
  case 1
  show ?case by simp
next
  case (2 c)
  show ?case by (simp add: replace_str_char)
next
  case (3 c d r)
  have cons: "replace_str [CR] [LF] (x # xs)
      = (if x = CR then LF else x) # replace_str [CR] [LF] xs" for x xs
    by (simp add: replace_str_char)
  from 3 show ?case
    by (simp only: replace_crlf_simps normalize_newlines.simps cons split: if_splits)
       (auto simp: special_chars_distinct)
qed

lemma replace_crlf_commutes:
  "replace_str [CR, LF] [LF] (concat (map (\<lambda>c. if c = BS then [BS, BS] else [c]) s))
     = concat (map (\<lambda>c. if c = BS then [BS, BS] else [c]) (replace_str [CR, LF] [LF] s))"
proof (induction s rule: normalize_newlines.induct)
  case 1
  show ?case by simp
next
  case (2 c)
  show ?case by (simp add: special_chars_distinct)
next
  case (3 c d r)
  then show ?case
    by (cases "c = BS"; cases "d = BS"; cases "c = CR"; cases "d = LF")
       (simp_all add: replace_crlf_simps special_chars_distinct del: replace_str.simps)
qed

lemma escape_one_char:
  "concat (map (\<lambda>c. concat (map (\<lambda>c. concat
       (map (\<lambda>c. if c = CHR '';'' then [BS, CHR '';''] else [c])
          (if c = CHR '','' then [BS, CHR '',''] else [c])))
       (if c = LF then [BS, CHR ''n''] else [c])))
     (if c = BS then [BS, BS] else [c]))
   = esc_char c"
  by (simp add: esc_char_def special_chars_distinct)

lemma swap_cr_bs:
  "concat (map (\<lambda>c. if c = CR then [LF] else [c]) (if c = BS then [BS, BS] else [c]))
   = concat (map (\<lambda>c. if c = BS then [BS, BS] else [c]) (if c = CR then [LF] else [c]))"
  by (simp add: special_chars_distinct)

lemma ics_escape_chars:
  "ics_escape s = concat (map esc_char (normalize_newlines s))"
proof -
  let ?b = "\<lambda>c. if c = BS then [BS, BS] else [c]"
  have "replace_str [CR] [LF] (replace_str [CR, LF] [LF] (replace_str [BS] [BS, BS] s))
      = concat (map ?b (normalize_newlines s))"
  proof -
    have "replace_str [CR] [LF] (replace_str [CR, LF] [LF] (replace_str [BS] [BS, BS] s))
        = replace_str [CR] [LF] (concat (map ?b (replace_str [CR, LF] [LF] s)))"
      by (simp only: replace_str_char [of BS] replace_crlf_commutes)
    also have "\<dots> = concat (map ?b (replace_str [CR] [LF] (replace_str [CR, LF] [LF] s)))"
      by (simp only: replace_str_char concat_map_concat_map swap_cr_bs)
    finally show ?thesis
      by (simp only: replace_crlf_then_cr)
  qed
  then have "ics_escape s
      = replace_str '';'' [BS, CHR '';'']
         (replace_str '','' [BS, CHR '','']
           (replace_str [LF] [BS, CHR ''n''] (concat (map ?b (normalize_newlines s)))))"
    by (simp add: ics_escape_def)
  also have "\<dots> = concat (map esc_char (normalize_newlines s))"
    by (simp only: replace_str_char concat_map_concat_map escape_one_char)
  finally show ?thesis .
qed

lemma ics_unescape_plain: "c \<noteq> BS \<Longrightarrow> ics_unescape (c # xs) = c # ics_unescape xs"
  by (cases xs) simp_all

lemma ics_unescape_esc_char: "ics_unescape (esc_char c @ xs) = c # ics_unescape xs"
  by (simp add: esc_char_def ics_unescape_plain special_chars_distinct)

lemma ics_unescape_escaped: "ics_unescape (concat (map esc_char t)) = t"
  by (induction t) (simp_all add: ics_unescape_esc_char)

lemma normalize_plain: "CR \<noteq> c \<Longrightarrow> normalize_newlines (c # xs) = c # normalize_newlines xs"
  by (cases xs) auto

lemma normalize_no_cr: "CR \<notin> set s \<Longrightarrow> normalize_newlines s = s"
  by (induction s) (simp_all add: normalize_plain)

lemma normalize_append: "CR \<notin> set l \<Longrightarrow> normalize_newlines (l @ xs) = l @ normalize_newlines xs"
  by (induction l) (simp_all add: normalize_plain)

lemma normalize_cr: "xs = [] \<or> hd xs \<noteq> LF \<Longrightarrow> normalize_newlines (CR # xs) = LF # normalize_newlines xs"
  by (cases xs) auto

lemma join_cr_head:
  "\<forall>l \<in> set ls. LF \<notin> set l \<Longrightarrow> join [CR] ls = [] \<or> hd (join [CR] ls) \<noteq> LF"
proof (induction "[CR]" ls rule: join.induct)
  case 1
  show ?case by simp
next
  case (2 x)
  then show ?case by (cases x) auto
next
  case (3 x y r)
  then show ?case by (cases x) (auto simp: special_chars_distinct)
qed

lemma normalize_join:
  assumes "\<forall>l \<in> set ls. CR \<notin> set l \<and> LF \<notin> set l"
  shows "normalize_newlines (join [CR, LF] ls) = join [LF] ls"
    and "normalize_newlines (join [CR] ls) = join [LF] ls"
    and "normalize_newlines (join [LF] ls) = join [LF] ls"
proof -
  show "normalize_newlines (join [CR, LF] ls) = join [LF] ls"
    using assms
    by (induction "[CR, LF]" ls rule: join.induct) (simp_all add: normalize_no_cr normalize_append)
  show "normalize_newlines (join [CR] ls) = join [LF] ls"
    using assms
  proof (induction "[CR]" ls rule: join.induct)
    case (3 x y r)
    then have "join [CR] (y # r) = [] \<or> hd (join [CR] (y # r)) \<noteq> LF"
      by (intro join_cr_head) simp
    with 3 show ?case
      by (simp add: normalize_append normalize_cr)
  qed (simp_all add: normalize_no_cr)
  show "normalize_newlines (join [LF] ls) = join [LF] ls"
    using assms
    by (induction "[LF]" ls rule: join.induct)
       (simp_all add: normalize_no_cr normalize_append normalize_plain special_chars_distinct)
qed

text \<open>
  Claim C3, as the code has it. \<open>ics_escape\<close> doubles the backslashes first, turns CRLF
  and a lone CR into LF, and then escapes LF, comma and semicolon; the result is the
  character-wise escape of the text with its newlines normalised. Un-escaping gives
  back the text with its newlines normalised, which is the original text when it has no
  carriage return. A text whose lines are joined by CRLF, by CR or by LF has the same
  escaped form.
\<close>

theorem ics_escape_by_characters:
  "ics_escape s = concat (map esc_char (normalize_newlines s))
   \<and> ics_unescape (ics_escape s) = normalize_newlines s
   \<and> (CR \<notin> set s \<longrightarrow> ics_unescape (ics_escape s) = s)
   \<and> ((\<forall>l \<in> set ls. CR \<notin> set l \<and> LF \<notin> set l) \<longrightarrow>
        ics_escape (join [CR, LF] ls) = ics_escape (join [LF] ls)
        \<and> ics_escape (join [CR] ls) = ics_escape (join [LF] ls))"
proof (intro conjI impI)
  show "ics_escape s = concat (map esc_char (normalize_newlines s))"
    by (rule ics_escape_chars)
  show "ics_unescape (ics_escape s) = normalize_newlines s"
    by (simp add: ics_escape_chars ics_unescape_escaped)
next
  assume "CR \<notin> set s"
  then show "ics_unescape (ics_escape s) = s"
    by (simp add: ics_escape_chars ics_unescape_escaped normalize_no_cr)
next
  assume plain: "\<forall>l \<in> set ls. CR \<notin> set l \<and> LF \<notin> set l"
  show "ics_escape (join [CR, LF] ls) = ics_escape (join [LF] ls)"
    by (simp add: ics_escape_chars normalize_join [OF plain])
next
  assume plain: "\<forall>l \<in> set ls. CR \<notin> set l \<and> LF \<notin> set l"
  show "ics_escape (join [CR] ls) = ics_escape (join [LF] ls)"
    by (simp add: ics_escape_chars normalize_join [OF plain])
qed

text \<open>
  The claim as stated fails for a text with a carriage return: un-escaping the escaped
  form of a, CR, LF, b gives a, LF, b, which is not the original text.
\<close>

theorem ics_unescape_loses_carriage_return:
  "ics_unescape (ics_escape [CHR ''a'', CR, LF, CHR ''b'']) = [CHR ''a'', LF, CHR ''b'']
   \<and> ics_unescape (ics_escape [CHR ''a'', CR, LF, CHR ''b'']) \<noteq> [CHR ''a'', CR, LF, CHR ''b'']"
  by (simp add: ics_escape_def BS_def CR_def LF_def)

text \<open>
  The witness: a text with a backslash, a comma, a line feed and a semicolon comes back
  unchanged, and three lines, the middle one empty, escape alike in the three newline
  forms.
\<close>

theorem ics_escape_by_characters_witness:
  "ics_unescape (ics_escape [CHR ''a'', BS, CHR '','', LF, CHR '';''])
     = [CHR ''a'', BS, CHR '','', LF, CHR '';'']
   \<and> ics_escape (join [CR, LF] [''ab'', [], ''c'']) = ics_escape (join [LF] [''ab'', [], ''c''])
   \<and> ics_escape (join [CR] [''ab'', [], ''c'']) = ics_escape (join [LF] [''ab'', [], ''c''])
   \<and> ics_escape (join [LF] [''ab'', [], ''c''])
     = [CHR ''a'', CHR ''b'', BS, CHR ''n'', BS, CHR ''n'', CHR ''c'']"
proof -
  note t = ics_escape_by_characters [of "[CHR ''a'', BS, CHR '','', LF, CHR '';'']" "[''ab'', [], ''c'']"]
  have no_cr: "CR \<notin> set [CHR ''a'', BS, CHR '','', LF, CHR '';'']"
    by (simp add: BS_def CR_def LF_def)
  have plain: "\<forall>l \<in> set [''ab'', [], ''c'']. CR \<notin> set l \<and> LF \<notin> set l"
    by (simp add: CR_def LF_def)
  from t no_cr have roundtrip: "ics_unescape (ics_escape [CHR ''a'', BS, CHR '','', LF, CHR '';''])
     = [CHR ''a'', BS, CHR '','', LF, CHR '';'']"
    by blast
  from t plain have forms:
    "ics_escape (join [CR, LF] [''ab'', [], ''c'']) = ics_escape (join [LF] [''ab'', [], ''c''])"
    "ics_escape (join [CR] [''ab'', [], ''c'']) = ics_escape (join [LF] [''ab'', [], ''c''])"
    by blast+
  have val: "ics_escape (join [LF] [''ab'', [], ''c''])
     = [CHR ''a'', CHR ''b'', BS, CHR ''n'', BS, CHR ''n'', CHR ''c'']"
    by (simp add: ics_escape_def BS_def CR_def LF_def)
  from roundtrip forms val show ?thesis by blast
qed

section \<open>Times of day\<close>






























lemma parse_hhmm_overflow_value: "parse_hhmm ta ''99999999999:00'' = Inl OverflowError"
  by (simp add: parse_hhmm_def py_int_def as_ascii_def is_ascii_def strip_def is_space_def
      is_digit_def digit_val_def int_max_str_digits_def mk_time_def c_int_def)


section \<open>The first occurrence, for every term\<close>

text \<open>
  For valid day codes and a term that ends before the last date that exists,
  \<open>first_matching_date\<close> returns. A date it returns is the earliest date of the term
  whose weekday is the number of one of the codes; \<open>None\<close> means that no date of the
  term has such a weekday. With an empty day list it returns \<open>None\<close>, and in a term of
  seven days or more a non-empty day list always has a first occurrence.
\<close>

lemma wanted_of_valid:
  "list_all (\<lambda>d. DAY_MAP d \<noteq> None) days \<Longrightarrow>
     wanted_of days = Inr {n. \<exists>d \<in> set days. DAY_MAP d = Some n}"
  by (induction days) (auto split: option.splits)

lemma first_matching_date_returns:
  assumes "list_all (\<lambda>d. DAY_MAP d \<noteq> None) days" and "0 \<le> term_start"
    and "term_end < MAXORDINAL"
  shows "\<exists>r. first_matching_date term_start term_end days = Inr r"
  using scan_days_returns [OF assms(2,3)] wanted_of_valid [OF assms(1)]
  by (simp add: first_matching_date_def)

lemma first_matching_date_earliest:
  assumes "first_matching_date term_start term_end days = Inr (Some d)"
  shows "term_start \<le> d \<and> d \<le> term_end \<and> Some (weekday d) \<in> DAY_MAP ` set days
     \<and> (\<forall>y. term_start \<le> y \<and> y < d \<longrightarrow> Some (weekday y) \<notin> DAY_MAP ` set days)"
proof -
  from assms obtain W where W: "wanted_of days = Inr W"
    and scan: "scan_days W term_start term_end = Inr (Some d)"
    by (auto simp: first_matching_date_def split: sum.splits)
  have valid: "list_all (\<lambda>d. DAY_MAP d \<noteq> None) days"
    using W by (induction days arbitrary: W) (auto split: option.splits sum.splits)
  with W have "W = {n. \<exists>d \<in> set days. DAY_MAP d = Some n}"
    by (simp add: wanted_of_valid)
  then have mem: "n \<in> W \<longleftrightarrow> Some n \<in> DAY_MAP ` set days" for n
    by (force simp: image_iff)
  from scan_days_Some [OF scan] show ?thesis
    by (simp add: mem)
qed

lemma first_matching_date_none:
  assumes "first_matching_date term_start term_end days = Inr None"
    and "term_start \<le> y" and "y \<le> term_end"
  shows "Some (weekday y) \<notin> DAY_MAP ` set days"
proof -
  from assms obtain W where W: "wanted_of days = Inr W"
    and scan: "scan_days W term_start term_end = Inr None"
    by (auto simp: first_matching_date_def split: sum.splits)
  have valid: "list_all (\<lambda>d. DAY_MAP d \<noteq> None) days"
    using W by (induction days arbitrary: W) (auto split: option.splits sum.splits)
  with W have "W = {n. \<exists>d \<in> set days. DAY_MAP d = Some n}"
    by (simp add: wanted_of_valid)
  then have mem: "n \<in> W \<longleftrightarrow> Some n \<in> DAY_MAP ` set days" for n
    by (force simp: image_iff)
  from scan_days_None [OF scan assms(2,3)] show ?thesis
    by (simp add: mem)
qed

lemma first_matching_date_no_days:
  assumes "0 \<le> term_start" and "term_end < MAXORDINAL"
  shows "first_matching_date term_start term_end [] = Inr None"
proof -
  from scan_days_returns [OF assms] obtain r where r: "scan_days {} term_start term_end = Inr r"
    by blast
  have "r = None"
  proof (cases r)
    case (Some x)
    with r scan_days_Some [of "{}" term_start term_end x] show ?thesis by simp
  qed simp
  with r show ?thesis
    by (simp add: first_matching_date_def)
qed

lemma DAY_MAP_range: "DAY_MAP c = Some n \<Longrightarrow> 0 \<le> n \<and> n \<le> 6"
  by (auto simp: DAY_MAP_def split: if_splits)

lemma week_has_every_weekday:
  assumes "0 \<le> n" and "n \<le> 6"
  shows "\<exists>y. d \<le> y \<and> y \<le> d + 6 \<and> weekday y = n"
proof -
  define x where "x = d + 6"
  define k where "k = (n - x) mod 7"
  have "(x + k) mod 7 = (x + (n - x)) mod 7"
    unfolding k_def by (rule mod_add_right_eq)
  also have "\<dots> = n" using assms by simp
  finally have "(x + k) mod 7 = n" .
  moreover have "x + k = d + k + 6"
    by (simp add: x_def)
  ultimately have "weekday (d + k) = n"
    by (simp add: weekday_def toordinal_def)
  moreover have "0 \<le> k \<and> k \<le> 6"
    unfolding k_def by simp
  ultimately show ?thesis
    by (intro exI [of _ "d + k"]) simp
qed

lemma scan_days_finds:
  "0 \<le> d \<Longrightarrow> d \<le> y \<Longrightarrow> y \<le> te \<Longrightarrow> y \<le> MAXORDINAL \<Longrightarrow> weekday y \<in> W \<Longrightarrow>
     \<exists>x. scan_days W d te = Inr (Some x)"
proof (induction W d te rule: scan_days.induct)
  case (1 W d te)
  show ?case
  proof (cases "weekday d \<in> W")
    case True
    with "1.prems" show ?thesis
      by (simp add: scan_days.simps [of W d te])
  next
    case False
    with "1.prems" have "d \<noteq> y" by auto
    with "1.prems" have lt: "d < y" by simp
    with "1.prems" have d': "fromordinal (toordinal d + 1) = Inr (d + 1)"
      by (simp add: fromordinal_def toordinal_def)
    from "1.prems" have dle: "d \<le> te" by simp
    from "1.IH" [OF dle False d'] lt "1.prems"
    obtain x where "scan_days W (d + 1) te = Inr (Some x)" by auto
    with dle False d' show ?thesis
      by (simp add: scan_days.simps [of W d te])
  qed
qed

lemma first_matching_date_in_long_term:
  assumes "list_all (\<lambda>d. DAY_MAP d \<noteq> None) days" and "days \<noteq> []"
    and "0 \<le> term_start" and "term_start + 6 \<le> term_end" and "term_end \<le> MAXORDINAL"
  shows "\<exists>d. first_matching_date term_start term_end days = Inr (Some d)"
proof -
  from assms(1,2) obtain c n where c: "c \<in> set days" "DAY_MAP c = Some n"
    by (cases days) auto
  then obtain y where y: "term_start \<le> y" "y \<le> term_start + 6" "weekday y = n"
    using week_has_every_weekday [of n term_start] DAY_MAP_range [of c n] by blast
  let ?W = "{n. \<exists>d \<in> set days. DAY_MAP d = Some n}"
  have W: "wanted_of days = Inr ?W" using assms(1) by (rule wanted_of_valid)
  have yW: "weekday y \<in> ?W" using c y by auto
  have "\<exists>d. scan_days ?W term_start term_end = Inr (Some d)"
    using assms(3) y(1) _ _ yW
  proof (rule scan_days_finds)
    show "y \<le> term_end" using y assms(4) by simp
    then show "y \<le> MAXORDINAL" using assms(5) by simp
  qed
  with W show ?thesis
    by (simp add: first_matching_date_def)
qed

section \<open>The validation loop, for every event list\<close>

text \<open>
  The events are checked in order: when the loop raises, all events before the failing
  one have passed and the error is the one of the first event that fails. Events that
  pass are \<open>checked\<close>.
\<close>

lemma check_days_valid: "check_days i ds = Inr u \<Longrightarrow> list_all (\<lambda>d. DAY_MAP d \<noteq> None) ds"
proof (induction ds)
  case Nil
  show ?case by simp
next
  case (Cons d ds)
  show ?case
  proof (cases "DAY_MAP d = None")
    case True
    with Cons.prems show ?thesis by simp
  next
    case False
    with Cons.prems have "check_days i ds = Inr u" by simp
    with Cons.IH False show ?thesis by simp
  qed
qed

lemma validate_event_Inr:
  assumes "validate_event ta i e = Inr v"
  obtains t ds s en where "r_title e = Some t" "r_days e = Some ds" "r_start e = Some s"
    "r_end e = Some en" "\<exists>u. check_days i ds = Inr u" "\<exists>x. parse_hhmm ta s = Inr x"
    "\<exists>x. parse_hhmm ta en = Inr x"
    "v = \<lparr>ev_title = t, ev_days = ds, ev_start = s, ev_end = en,
          ev_location = r_location e, ev_notes = r_notes e\<rparr>"
proof -
  from assms obtain t ds s en where k: "r_title e = Some t" "r_days e = Some ds"
      "r_start e = Some s" "r_end e = Some en"
    by (cases "r_title e"; cases "r_days e"; cases "r_start e"; cases "r_end e")
       (simp_all add: validate_event_def)
  from assms k obtain u where u: "check_days i ds = Inr u"
    by (cases "check_days i ds") (simp_all add: validate_event_def)
  from assms k u obtain x where x: "parse_hhmm ta s = Inr x"
    by (cases "parse_hhmm ta s") (simp_all add: validate_event_def)
  from assms k u x obtain y where y: "parse_hhmm ta en = Inr y"
    by (cases "parse_hhmm ta en") (simp_all add: validate_event_def)
  from assms k u x y have "v = \<lparr>ev_title = t, ev_days = ds, ev_start = s, ev_end = en,
          ev_location = r_location e, ev_notes = r_notes e\<rparr>"
    by (simp add: validate_event_def)
  with k u x y that show thesis by blast
qed

lemma validate_event_checked:
  assumes "validate_event ta i e = Inr v"
  shows "checked ta v"
proof -
  from assms obtain t ds s en where "\<exists>u. check_days i ds = Inr u" "\<exists>x. parse_hhmm ta s = Inr x"
    "\<exists>x. parse_hhmm ta en = Inr x"
    "v = \<lparr>ev_title = t, ev_days = ds, ev_start = s, ev_end = en,
          ev_location = r_location e, ev_notes = r_notes e\<rparr>"
    by (rule validate_event_Inr)
  then show ?thesis
    using check_days_valid by (auto simp: checked_def)
qed

lemma validate_from_checked: "validate_from ta i es = Inr vs \<Longrightarrow> list_all (checked ta) vs"
proof (induction es arbitrary: i vs)
  case Nil
  then show ?case by simp
next
  case (Cons e es)
  from Cons.prems obtain v where v: "validate_event ta i e = Inr v"
    by (cases "validate_event ta i e") simp_all
  with Cons.prems obtain vs' where vs': "validate_from ta (Suc i) es = Inr vs'"
    by (cases "validate_from ta (Suc i) es") simp_all
  with Cons.prems v have "vs = v # vs'" by simp
  with Cons.IH [OF vs'] validate_event_checked [OF v] show ?case by simp
qed

lemma validate_from_first_error:
  "validate_from ta i es = Inl err \<Longrightarrow>
     \<exists>k < length es. (\<forall>j < k. \<exists>v. validate_event ta (i + j) (es ! j) = Inr v)
        \<and> validate_event ta (i + k) (es ! k) = Inl err"
proof (induction es arbitrary: i)
  case Nil
  then show ?case by simp
next
  case (Cons e es)
  show ?case
  proof (cases "validate_event ta i e")
    case (Inl x)
    with Cons.prems have "x = err" by simp
    with Inl show ?thesis by (intro exI [of _ 0]) simp
  next
    case (Inr v)
    with Cons.prems have "validate_from ta (Suc i) es = Inl err"
      by (simp split: sum.splits)
    from Cons.IH [OF this] obtain k where k: "k < length es"
      "\<forall>j < k. \<exists>v. validate_event ta (Suc i + j) (es ! j) = Inr v"
      "validate_event ta (Suc i + k) (es ! k) = Inl err"
      by blast
    have "\<forall>j < Suc k. \<exists>v. validate_event ta (i + j) ((e # es) ! j) = Inr v"
    proof (intro allI impI)
      fix j assume "j < Suc k"
      then show "\<exists>v. validate_event ta (i + j) ((e # es) ! j) = Inr v"
        using Inr k(2) by (cases j) auto
    qed
    with k(1,3) show ?thesis
      by (intro exI [of _ "Suc k"]) simp
  qed
qed

section \<open>The calendar document, for every checked event list\<close>

text \<open>
  In a term that ends before the last date that exists, \<open>build_ics\<close> returns for
  every list of checked events. An event without a first occurrence adds no line, every
  other event adds one block of nine lines from BEGIN:VEVENT to END:VEVENT, and the
  document is the header, the blocks and END:VCALENDAR, each line followed by CRLF.
\<close>

lemma event_lines_checked:
  assumes "checked ta e" and "0 \<le> term_start" and "term_end < MAXORDINAL"
  shows "(first_matching_date term_start term_end (ev_days e) = Inr None
           \<and> event_lines ta h term_start term_end until e = Inr [])
       \<or> (\<exists>first b. first_matching_date term_start term_end (ev_days e) = Inr (Some first)
           \<and> event_lines ta h term_start term_end until e = Inr b \<and> length b = 9
           \<and> hd b = ''BEGIN:VEVENT'' \<and> last b = ''END:VEVENT'')"
proof -
  from assms obtain r where "first_matching_date term_start term_end (ev_days e) = Inr r"
    using first_matching_date_returns [of "ev_days e" term_start term_end]
    by (auto simp: checked_def)
  with assms(1) show ?thesis
    by (cases r) (auto simp: event_lines_def checked_def)
qed

lemma extend_lines_checked:
  assumes "list_all (checked ta) evs" and "0 \<le> term_start" and "term_end < MAXORDINAL"
  shows "\<exists>bs. map (event_lines ta h term_start term_end until) evs = map Inr bs
     \<and> extend_lines ta h term_start term_end until lines evs = Inr (lines @ concat bs)"
  using assms(1)
proof (induction evs arbitrary: lines)
  case Nil
  show ?case by simp
next
  case (Cons e evs)
  then have "checked ta e" by simp
  from event_lines_checked [OF this assms(2,3)] obtain b
    where b: "event_lines ta h term_start term_end until e = Inr b" by blast
  from Cons.prems have rest: "list_all (checked ta) evs" by simp
  from Cons.IH [OF rest, of "lines @ b"] obtain bs
    where bs: "map (event_lines ta h term_start term_end until) evs = map Inr bs"
    "extend_lines ta h term_start term_end until (lines @ b) evs = Inr ((lines @ b) @ concat bs)"
    by blast
  show ?case
    using b bs by (intro exI [of _ "b # bs"]) simp
qed

lemma join_terminated: "ls \<noteq> [] \<Longrightarrow> join sep ls @ sep = concat (map (\<lambda>l. l @ sep) ls)"
  by (induction sep ls rule: join.induct) simp_all

lemma build_ics_checked:
  assumes "list_all (checked ta) evs" and "0 \<le> term_start" and "term_end < MAXORDINAL"
  shows "\<exists>bs. map (event_lines ta h term_start term_end (strftime_basic term_end (Time 23 59 59))) evs
               = map Inr bs
     \<and> build_ics ta h term term_start term_end evs
       = Inr (concat (map (\<lambda>l. l @ CRLF) (header term @ concat bs @ [''END:VCALENDAR''])))"
proof -
  from extend_lines_checked [OF assms] obtain bs
    where bs: "map (event_lines ta h term_start term_end (strftime_basic term_end (Time 23 59 59))) evs
               = map Inr bs"
      "extend_lines ta h term_start term_end (strftime_basic term_end (Time 23 59 59)) (header term) evs
         = Inr (header term @ concat bs)"
    by blast
  have "join CRLF (header term @ concat bs @ [''END:VCALENDAR'']) @ CRLF
      = concat (map (\<lambda>l. l @ CRLF) (header term @ concat bs @ [''END:VCALENDAR'']))"
    by (rule join_terminated) simp
  with bs show ?thesis
    by (intro exI [of _ bs]) (simp add: build_ics_def ics_lines_def)
qed

lemma build_ics_single_monday_sunday_event:
  "build_ics ta h term 739131 739131
     [\<lparr>ev_title = ''Chapel'', ev_days = [''SU''], ev_start = ''10:00'', ev_end = ''11:00'',
        ev_location = None, ev_notes = None\<rparr>]
   = Inr (concat (map (\<lambda>l. l @ CRLF) (header term @ [''END:VCALENDAR''])))"
proof -
  have "first_matching_date 739131 739131 [''SU''] = Inr None"
    by (simp add: first_matching_date_def DAY_MAP_def scan_days.simps weekday_def toordinal_def
        fromordinal_def MAXORDINAL_def)
  then show ?thesis
    by (simp add: build_ics_def ics_lines_def event_lines_def parse_hhmm_values header_def)
qed

section \<open>What the weekly view prints\<close>

text \<open>
  The view prints its two heading lines and then, for the weekdays in the order MO to
  SU, the lines \<open>day_lines\<close> of the event list. The events of a day are those whose
  day list has the code; they are printed in ascending order of their start strings,
  and events with the same start string keep the order of the event list.
\<close>

lemma print_stdout [simp]: "stdout (print s st) = stdout st @ [s]"
  by (simp add: print_def)

lemma print_items_stdout: "stdout (print_items es st) = stdout st @ map item_line es"
  by (induction es arbitrary: st) simp_all

lemma print_day_stdout:
  "events < next_addr st \<Longrightarrow>
     stdout (print_day events d st) = stdout st @ day_lines (lists st events) d"
  by (simp add: print_day_def day_lines_def new_list_def sort_in_place_def Let_def
      print_items_stdout)

lemma print_days_stdout:
  "events < next_addr st \<Longrightarrow>
     stdout (print_days events ds st) = stdout st @ concat (map (day_lines (lists st events)) ds)"
proof (induction ds arbitrary: st)
  case Nil
  show ?case by simp
next
  case (Cons d ds)
  from Cons.prems have "events < next_addr (print_day events d st)"
    by (simp add: print_day_next_addr)
  from Cons.IH [OF this] Cons.prems show ?case
    by (simp add: print_day_stdout print_day_frame)
qed

lemma print_week_view_stdout:
  "events < next_addr st \<Longrightarrow>
     stdout (print_week_view events st)
       = stdout st @ [[LF] @ ''WEEKLY VIEW'', replicate 40 (CHR ''-'')]
         @ concat (map (day_lines (lists st events)) order)"
  by (simp add: print_week_view_def print_days_stdout)

lemma day_items_sorted_stable:
  "sorted (map ev_start (sort_key ev_start (filter (\<lambda>e. d \<in> set (ev_days e)) evs)))"
  "set (sort_key ev_start (filter (\<lambda>e. d \<in> set (ev_days e)) evs))
     = {e \<in> set evs. d \<in> set (ev_days e)}"
  "filter (\<lambda>e. ev_start e = k) (sort_key ev_start (filter (\<lambda>e. d \<in> set (ev_days e)) evs))
     = filter (\<lambda>e. ev_start e = k) (filter (\<lambda>e. d \<in> set (ev_days e)) evs)"
  by (simp_all add: sort_key_stable)

end
